theory Spec2Isabelle
  imports Main "HOL-Library.Word"
begin

unbundle bit_operations_syntax

section \<open>Locations for Bison: a shallow embedding of src/location.c\<close>

text \<open>
  The C types are modelled with their widths on the usual LP64 targets: \<open>int\<close> and
  \<open>unsigned\<close> are 32-bit words, \<open>size_t\<close> is a 64-bit word. A word read with
  \<open>sint\<close> is the value of a signed \<open>int\<close>; word arithmetic wraps around, which is
  what the conversions between \<open>int\<close>, \<open>unsigned\<close> and \<open>size_t\<close> of the
  source do. In \<open>location_compute\<close> and \<open>add_column_width\<close> no signed operation
  overflows when the column is nonnegative, as the comment of \<open>add_column_width\<close>
  assumes.
\<close>

type_synonym c_int = "32 word"
type_synonym c_unsigned = "32 word"
type_synonym size_t = "64 word"

definition INT_MAX :: c_int where
  "INT_MAX = 2147483647"

text \<open>A \<open>uniqstr\<close> is a pointer to an interned string; \<open>None\<close> is the null pointer.\<close>

type_synonym uniqstr = "string option"

record boundary =
  file' :: uniqstr
  line :: c_int
  column :: c_int

record location =
  start :: boundary
  end' :: boundary

subsection \<open>The diagnostic sink\<close>

text \<open>
  The sink is not part of location.c. What is written to it is kept as a list of events,
  in the order of the calls.
\<close>

text \<open>
  Modelled from the spec: \<open>complain\<close> of complain.c, the sink's
  \<open>report(Location, Severity, message)\<close>; a call is kept as a value.
\<close>

datatype warning = Wother

datatype complaint = Complain location warning string

datatype err_event = Err_char char | Begin_use_class string | End_use_class string

text \<open>
  Modelled from the spec: \<open>err_putc\<close> of complain.c, the sink's \<open>write\<close> for one
  character.
\<close>

definition err_putc :: "char \<Rightarrow> err_event list \<Rightarrow> err_event list" where
  "err_putc c out = out @ [Err_char c]"

text \<open>
  Modelled from the spec: \<open>err_printf\<close> of complain.c, the sink's
  \<open>write(text) -> charsWritten\<close>; the argument is the text after formatting.
\<close>

definition err_printf :: "string \<Rightarrow> err_event list \<Rightarrow> err_event list \<times> c_int" where
  "err_printf s out = (out @ map Err_char s, of_nat (length s))"

text \<open>
  Modelled from the spec: \<open>err_begin_use_class\<close> and \<open>err_end_use_class\<close> of
  complain.c, the styled sink's \<open>beginStyle(tag)\<close> and \<open>endStyle(tag)\<close>.
\<close>

definition err_begin_use_class :: "string \<Rightarrow> err_event list \<Rightarrow> err_event list" where
  "err_begin_use_class style out = out @ [Begin_use_class style]"

definition err_end_use_class :: "string \<Rightarrow> err_event list \<Rightarrow> err_event list" where
  "err_end_use_class style out = out @ [End_use_class style]"

text \<open>The C library's \<open>%d\<close> conversion: a decimal numeral, with a sign when negative.\<close>

definition digit_char :: "nat \<Rightarrow> char" where
  "digit_char n = ''0123456789'' ! n"

fun digits :: "nat \<Rightarrow> string" where
  "digits n = (if n < 10 then [digit_char n] else digits (n div 10) @ [digit_char (n mod 10)])"

declare digits.simps [simp del]

definition printf_d :: "c_int \<Rightarrow> string" where
  "printf_d i = (if sint i < 0 then CHR ''-'' # digits (nat (- sint i)) else digits (nat (sint i)))"

text \<open>
  A display-width function to run the model on: one column for each byte, which is the
  width of printable ASCII text.
\<close>

definition byte_width :: "string \<Rightarrow> c_int" where
  "byte_width s = of_nat (length s)"

subsection \<open>add\_column\_width\<close>

text \<open>
  \<open>mbsnwidth\<close> is gnulib's; it is a parameter of the model, \<open>mbsnwidth s\<close> standing
  for \<open>mbsnwidth (buf, bufsize, 0)\<close> where \<open>s\<close> is the \<open>bufsize\<close> bytes at \<open>buf\<close>.
  A buffer pointer is \<open>Some\<close> of the bytes it points to, or \<open>None\<close> when null.
\<close>

definition add_column_width ::
  "(string \<Rightarrow> c_int) \<Rightarrow> c_int \<Rightarrow> string option \<Rightarrow> size_t \<Rightarrow> c_int" where
  "add_column_width mbsnwidth col buf bufsize =
     (let remaining_columns = (INT_MAX - col :: c_unsigned) in
      case buf of
        Some b \<Rightarrow>
          if (scast (INT_MAX div 2) :: size_t) \<le> bufsize then INT_MAX
          else
            (let width = (scast (mbsnwidth (take (unat bufsize) b)) :: size_t) in
             if width \<le> ucast remaining_columns
             then ucast ((scast col :: size_t) + width) else INT_MAX)
      | None \<Rightarrow>
          (let width = bufsize in
           if width \<le> ucast remaining_columns
           then ucast ((scast col :: size_t) + width) else INT_MAX))"

subsection \<open>location\_compute\<close>

text \<open>
  The loop of \<open>location_compute\<close>. The token is the list of its \<open>size\<close> bytes; \<open>p0\<close>
  and \<open>p\<close> are offsets into it, and the third argument holds the bytes from \<open>p\<close> to
  \<open>lim\<close>.
\<close>

fun scan ::
  "(string \<Rightarrow> c_int) \<Rightarrow> string \<Rightarrow> string \<Rightarrow> c_int \<Rightarrow> c_int \<Rightarrow> nat \<Rightarrow> nat
     \<Rightarrow> c_int \<times> c_int \<times> nat \<times> nat" where
  "scan mbsnwidth token [] ln col p0 p = (ln, col, p0, p)"
| "scan mbsnwidth token (c # rest) ln col p0 p =
     (if c = CHR 0x0A then
        scan mbsnwidth token rest
          (ln + (if sint ln < sint INT_MAX then 1 else 0)) 1 (p + 1) (p + 1)
      else if c = CHR 0x09 then
        (let col1 = add_column_width mbsnwidth col (Some (drop p0 token)) (of_nat (p - p0));
             col2 = add_column_width mbsnwidth col1 None (scast (8 - ((col1 - 1) AND 7)))
         in scan mbsnwidth token rest ln col2 (p + 1) (p + 1))
      else scan mbsnwidth token rest ln col p0 (p + 1))"

definition location_compute ::
  "(string \<Rightarrow> c_int) \<Rightarrow> boundary \<Rightarrow> string \<Rightarrow> location \<times> boundary \<times> complaint list" where
  "location_compute mbsnwidth cur token =
     (case scan mbsnwidth token token (line cur) (column cur) 0 0 of
        (ln, col0, p0, p) \<Rightarrow>
          (let col = add_column_width mbsnwidth col0 (Some (drop p0 token)) (of_nat (p - p0));
               cur' = cur\<lparr>line := ln, column := col\<rparr>;
               loc = \<lparr>start = cur, end' = cur'\<rparr>
           in (loc, cur',
               (if ln = INT_MAX \<and> line (start loc) \<noteq> INT_MAX
                then [Complain loc Wother ''line number overflow''] else []) @
               (if col = INT_MAX \<and> column (start loc) \<noteq> INT_MAX
                then [Complain loc Wother ''column number overflow''] else []))))"

subsection \<open>location\_print\<close>

text \<open>
  \<open>quotearg_n_style (3, escape_quoting_style, name)\<close> is gnulib's; the quoting is the
  parameter \<open>quotearg\<close>. The state threaded through the calls is the sink and \<open>res\<close>.
\<close>

definition print_res :: "string \<Rightarrow> err_event list \<times> c_unsigned \<Rightarrow> err_event list \<times> c_unsigned" where
  "print_res s st = (case err_printf s (fst st) of (out, n) \<Rightarrow> (out, snd st + n))"

definition location_print ::
  "(uniqstr \<Rightarrow> string) \<Rightarrow> location \<Rightarrow> err_event list \<Rightarrow> err_event list \<times> c_unsigned" where
  "location_print quotearg loc out =
     (let end_col = (if 0 \<noteq> column (end' loc) then column (end' loc) - 1 else 0);
          st1 = print_res (quotearg (file' (start loc))) (out, 0);
          st2 = (if 0 \<le> sint (line (start loc)) then
                   (let st = print_res (CHR '':'' # printf_d (line (start loc))) st1 in
                    if 0 \<le> sint (column (start loc))
                    then print_res (CHR ''.'' # printf_d (column (start loc))) st else st)
                 else st1)
      in if file' (start loc) \<noteq> file' (end' loc) then
           (let st = print_res (CHR ''-'' # quotearg (file' (end' loc))) st2 in
            if 0 \<le> sint (line (end' loc)) then
              (let st = print_res (CHR '':'' # printf_d (line (end' loc))) st in
               if 0 \<le> sint end_col then print_res (CHR ''.'' # printf_d end_col) st else st)
            else st)
         else if 0 \<le> sint (line (end' loc)) then
           (if sint (line (start loc)) < sint (line (end' loc)) then
              (let st = print_res (CHR ''-'' # printf_d (line (end' loc))) st2 in
               if 0 \<le> sint end_col then print_res (CHR ''.'' # printf_d end_col) st else st)
            else if 0 \<le> sint end_col \<and> sint (column (start loc)) < sint end_col
            then print_res (CHR ''-'' # printf_d end_col) st2
            else st2)
         else st2)"

text \<open>
  A quoting function to run the model on: a name that needs no escaping is printed as it
  is.
\<close>

definition quote_plain :: "uniqstr \<Rightarrow> string" where
  "quote_plain name = (case name of None \<Rightarrow> [] | Some s \<Rightarrow> s)"

subsection \<open>location\_caret\<close>

text \<open>
  A stream opened for reading is the bytes of the file and the position of the next
  read. \<open>fopen\<close> looks the name up in the file system, a map from names to contents,
  and fails on a name that is absent or null.
\<close>

record FILE =
  contents :: string
  pos :: nat

definition fopen :: "(string \<rightharpoonup> string) \<Rightarrow> uniqstr \<Rightarrow> FILE option" where
  "fopen fs name =
     (case name of None \<Rightarrow> None
      | Some n \<Rightarrow> (case fs n of None \<Rightarrow> None | Some bytes \<Rightarrow> Some \<lparr>contents = bytes, pos = 0\<rparr>))"

text \<open>\<open>getc\<close> returns \<open>None\<close> for \<open>EOF\<close>.\<close>

definition getc :: "FILE \<Rightarrow> char option \<times> FILE" where
  "getc f = (if pos f < length (contents f)
             then (Some (contents f ! pos f), f\<lparr>pos := pos f + 1\<rparr>) else (None, f))"

definition fseek :: "FILE \<Rightarrow> size_t \<Rightarrow> FILE" where
  "fseek f off = f\<lparr>pos := unat off\<rparr>"

definition ftell :: "FILE \<Rightarrow> size_t" where
  "ftell f = of_nat (pos f)"

record caret_info =
  caret_source :: "FILE option"
  caret_line :: size_t
  caret_offset :: size_t

definition caret_info_init :: caret_info where
  "caret_info_init = \<lparr>caret_source = None, caret_line = 1, caret_offset = 0\<rparr>"

definition caret_free :: "caret_info \<Rightarrow> caret_info" where
  "caret_free ci = ci\<lparr>caret_source := None, caret_line := 1, caret_offset := 0\<rparr>"

text \<open>
  The loop that advances to the line's position:
  \<open>while (caret_info.line < loc.start.line) caret_info.line += getc (...) == '\n'\<close>.
  Nothing in it bounds the number of iterations, so it is a partial function: \<open>None\<close> is
  a loop that does not return.
\<close>

partial_function (option) advance_to_line :: "c_int \<Rightarrow> size_t \<Rightarrow> FILE \<Rightarrow> (size_t \<times> FILE) option" where
  "advance_to_line target ln f =
     (if ln < scast target
      then advance_to_line target
             (ln + (if fst (getc f) = Some (CHR 0x0A) then 1 else 0)) (snd (getc f))
      else Some (ln, f))"

text \<open>
  The do-while loop that quotes the line; \<open>c\<close> is the character read last. It stops at
  the end of the file or of the line.
\<close>

function quote_line ::
  "string \<Rightarrow> location \<Rightarrow> char \<Rightarrow> c_int \<Rightarrow> FILE \<Rightarrow> err_event list \<Rightarrow> FILE \<times> err_event list" where
  "quote_line style loc c col f out =
     (let col1 = col + 1;
          out1 = (if col1 = column (start loc) then err_begin_use_class style out else out);
          out2 = err_putc c out1;
          out3 = (if col1 + 1 = column (end' loc) then err_end_use_class style out2 else out2)
      in case fst (getc f) of
           None \<Rightarrow> (snd (getc f), out3)
         | Some c' \<Rightarrow>
             if c' \<noteq> CHR 0x0A then quote_line style loc c' col1 (snd (getc f)) out3
             else (snd (getc f), out3))"
  by pat_completeness auto
termination
  by (relation "measure (\<lambda>(style, loc, c, col, f, out). length (contents f) - pos f)")
     (auto simp: getc_def split: if_splits)

declare quote_line.simps [simp del]

text \<open>
  The loop that prints the carets:
  \<open>for (i = loc.start.column; i == loc.start.column || i < len; ++i)\<close>, where the
  comparison with \<open>len\<close> is made in \<open>size_t\<close>.
\<close>

partial_function (option) carets ::
  "location \<Rightarrow> size_t \<Rightarrow> c_int \<Rightarrow> err_event list \<Rightarrow> err_event list option" where
  "carets loc len i out =
     (if i = column (start loc) \<or> scast i < len
      then carets loc len (i + 1)
             (err_putc (if i = column (start loc) then CHR ''^'' else CHR ''~'') out)
      else Some out)"

text \<open>
  \<open>err_printf (" %*s", loc.start.column - 1, "")\<close>: a space, then the empty string
  padded to the width; a negative width pads on the other side, to its absolute value.
\<close>

definition indent :: "c_int \<Rightarrow> string" where
  "indent width = CHR '' '' # replicate (nat \<bar>sint width\<bar>) (CHR '' '')"

text \<open>
  \<open>location_caret\<close> takes the file system, the persistent \<open>caret_info\<close> and the sink,
  and returns the last two; \<open>None\<close> when it does not return.
\<close>

definition location_caret ::
  "(string \<rightharpoonup> string) \<Rightarrow> caret_info \<Rightarrow> location \<Rightarrow> string \<Rightarrow> err_event list
     \<Rightarrow> (caret_info \<times> err_event list) option" where
  "location_caret fs ci loc style out =
     (let src = (case caret_source ci of Some f \<Rightarrow> Some f
                 | None \<Rightarrow> fopen fs (file' (start loc)));
          ci1 = ci\<lparr>caret_source := src\<rparr>
      in case src of
           None \<Rightarrow> Some (ci1, out)
         | Some f \<Rightarrow>
             if column (start loc) = - 1 \<or> line (start loc) = - 1 then Some (ci1, out)
             else
               (let ci2 = (if caret_line ci1 \<le> scast (line (start loc)) then ci1
                           else ci1\<lparr>caret_line := 1, caret_offset := 0\<rparr>);
                    f1 = fseek f (caret_offset ci2)
                in case advance_to_line (line (start loc)) (caret_line ci2) f1 of
                     None \<Rightarrow> None
                   | Some (ln, f2) \<Rightarrow>
                       (let ci3 = ci2\<lparr>caret_line := ln, caret_offset := ftell f2\<rparr> in
                        case fst (getc f2) of
                          None \<Rightarrow> Some (ci3\<lparr>caret_source := Some (snd (getc f2))\<rparr>, out)
                        | Some c \<Rightarrow>
                            (case quote_line style loc c 0 (snd (getc f2)) (err_putc (CHR '' '') out) of
                               (f3, out1) \<Rightarrow>
                                 (let out2 = err_putc (CHR 0x0A) out1;
                                      len = (if line (start loc) \<noteq> line (end' loc)
                                             then ftell f3 - caret_offset ci3
                                             else scast (column (end' loc)));
                                      out3 = fst (err_printf (indent (column (start loc) - 1)) out2);
                                      out4 = err_begin_use_class style out3
                                  in case carets loc len (column (start loc)) out4 of
                                       None \<Rightarrow> None
                                     | Some out5 \<Rightarrow>
                                         Some (ci3\<lparr>caret_source := Some f3\<rparr>,
                                               err_putc (CHR 0x0A) (err_end_use_class style out5)))))))"

subsection \<open>location\_empty\<close>

definition location_empty :: "location \<Rightarrow> bool" where
  "location_empty loc =
     (file' (start loc) = None \<and> line (start loc) = 0 \<and> column (start loc) = 0 \<and>
      file' (end' loc) = None \<and> line (end' loc) = 0 \<and> column (end' loc) = 0)"

subsection \<open>boundary\_set\_from\_string\<close>

text \<open>
  \<open>strrchr\<close> gives the offset of the last occurrence of the character, \<open>None\<close> for the
  null pointer. A C string is the list of its bytes before the terminating null.
\<close>

fun strrchr :: "string \<Rightarrow> char \<Rightarrow> nat option" where
  "strrchr [] c = None"
| "strrchr (x # xs) c =
     (case strrchr xs c of
        Some i \<Rightarrow> Some (Suc i)
      | None \<Rightarrow> if x = c then Some 0 else None)"

text \<open>
  The C library's \<open>atoi\<close>: white space, an optional sign, then decimal digits up to the
  first character that is not one. A value that does not fit \<open>int\<close> wraps around here (C
  leaves it undefined).
\<close>

definition isspace :: "char \<Rightarrow> bool" where
  "isspace c = (c \<in> {CHR '' '', CHR 0x09, CHR 0x0A, CHR 0x0B, CHR 0x0C, CHR 0x0D})"

definition isdigit :: "char \<Rightarrow> bool" where
  "isdigit c = (48 \<le> (of_char c :: nat) \<and> (of_char c :: nat) \<le> 57)"

definition digit_value :: "char \<Rightarrow> int" where
  "digit_value c = int (of_char c) - 48"

definition atoi_digits :: "string \<Rightarrow> int" where
  "atoi_digits s = foldl (\<lambda>a c. 10 * a + digit_value c) 0 (takeWhile isdigit s)"

definition atoi :: "string \<Rightarrow> c_int" where
  "atoi s =
     (case dropWhile isspace s of
        [] \<Rightarrow> 0
      | c # rest \<Rightarrow>
          if c = CHR ''-'' then of_int (- atoi_digits rest)
          else if c = CHR ''+'' then of_int (atoi_digits rest)
          else of_int (atoi_digits (c # rest)))"

text \<open>
  Modelled from the spec: \<open>uniqstr_new\<close> of uniqstr.c, the interned-string service
  \<open>intern(string) -> FileRef\<close>; interned strings are equal exactly when their bytes are.
\<close>

definition uniqstr_new :: "string \<Rightarrow> uniqstr" where
  "uniqstr_new s = Some s"

text \<open>
  Modelled from the spec: \<open>aver\<close> of system.h fails fatally when its condition does
  not hold; the failure is the value \<open>Aver_failed\<close>.
\<close>

datatype failure = Aver_failed

text \<open>
  Writing the null byte at \<open>delim\<close> cuts the string there: what \<open>loc_str\<close> denotes
  afterwards is the bytes before \<open>delim\<close>.
\<close>

definition boundary_set_from_string :: "boundary \<Rightarrow> string \<Rightarrow> failure + boundary" where
  "boundary_set_from_string bound loc_str =
     (case strrchr loc_str (CHR ''.'') of
        None \<Rightarrow> Inl Aver_failed
      | Some delim \<Rightarrow>
          (let loc_str1 = take delim loc_str;
               bound1 = bound\<lparr>column := atoi (drop (delim + 1) loc_str)\<rparr>
           in case strrchr loc_str1 (CHR '':'') of
                None \<Rightarrow> Inl Aver_failed
              | Some delim2 \<Rightarrow>
                  (let loc_str2 = take delim2 loc_str1;
                       bound2 = bound1\<lparr>line := atoi (drop (delim2 + 1) loc_str1)\<rparr>
                   in Inr (bound2\<lparr>file' := uniqstr_new loc_str2\<rparr>))))"

section \<open>Properties\<close>

subsection \<open>Words as C integers\<close>

lemma sint32_bounds: "- 2147483648 \<le> sint (c::32 word) \<and> sint c \<le> 2147483647"
  using sint_ge[of c] sint_lt[of c] by simp

lemma sint_INT_MAX: "sint INT_MAX = 2147483647"
  by (simp add: INT_MAX_def)

lemma uint_remaining: "uint (ucast (INT_MAX - c :: 32 word) :: 64 word) = 2147483647 - sint c"
proof -
  have "uint (INT_MAX - c) = take_bit 32 (2147483647 - uint c)"
    by (simp add: uint_word_arith_bintrs(2) INT_MAX_def)
  also have "\<dots> = take_bit 32 (2147483647 - take_bit 32 (sint c))"
    by (simp add: uint_sint)
  also have "\<dots> = take_bit 32 (2147483647 - sint c)"
    by (simp only: take_bit_eq_mod mod_diff_right_eq)
  also have "\<dots> = 2147483647 - sint c"
    using sint32_bounds[of c] by (simp add: take_bit_int_eq_self)
  finally show ?thesis by (simp add: uint_up_ucast is_up)
qed

lemma take_bit_64_nonneg: "0 \<le> k \<Longrightarrow> k \<le> 2147483647 \<Longrightarrow> take_bit 64 (k::int) = k"
  by (simp add: take_bit_int_eq_self)

lemma take_bit_64_neg: "k < 0 \<Longrightarrow> - 2147483648 \<le> k \<Longrightarrow> take_bit 64 (k::int) = 18446744073709551616 + k"
proof -
  assume a: "k < 0" "- 2147483648 \<le> k"
  have "take_bit 64 k = take_bit 64 (k + 2 ^ 64)" by (simp only: take_bit_add[symmetric, of 64 k "2^64"] take_bit_of_exp, simp)
  also have "\<dots> = k + 2 ^ 64" using a by (intro take_bit_int_eq_self) simp_all
  finally show ?thesis by simp
qed

lemma uint_scast_32_64:
  "uint (scast (x::32 word) :: 64 word) = (if 0 \<le> sint x then sint x else 18446744073709551616 + sint x)"
proof -
  have "uint (scast x :: 64 word) = uint (word_of_int (sint x) :: 64 word)"
    by (simp only: scast_eq)
  also have "\<dots> = take_bit 64 (sint x)"
    by (simp only: uint_word_of_int_eq) simp
  finally show ?thesis
    using sint32_bounds[of x] 
    by (simp add: take_bit_64_nonneg take_bit_64_neg)
qed

lemma sint_ucast_sum:
  "sint (ucast ((scast (c::32 word) :: 64 word) + w) :: 32 word) = signed_take_bit 31 (sint c + uint w)"
proof -
  have "uint ((scast c :: 64 word) + w) = take_bit 64 (uint (word_of_int (sint c) :: 64 word) + uint w)"
    by (simp only: uint_word_arith_bintrs(1) scast_eq) simp
  also have "\<dots> = take_bit 64 (take_bit 64 (sint c) + uint w)"
    by (simp only: uint_word_of_int_eq) simp
  also have "\<dots> = take_bit 64 (sint c + uint w)"
    by (simp only: take_bit_eq_mod mod_add_left_eq)
  finally have u: "uint ((scast c :: 64 word) + w) = take_bit 64 (sint c + uint w)" .
  have "sint (ucast ((scast c :: 64 word) + w) :: 32 word)
        = sint (word_of_int (uint ((scast c :: 64 word) + w)) :: 32 word)"
    by (simp only: ucast_eq)
  also have "\<dots> = signed_take_bit 31 (take_bit 64 (sint c + uint w))"
    by (simp only: u sint_sbintrunc') simp 
  finally show ?thesis
    by (simp add: signed_take_bit_take_bit)
qed

lemma sint_ucast_sum_inrange:
  "- 2147483648 \<le> sint c + uint w \<Longrightarrow> sint c + uint w \<le> 2147483647 \<Longrightarrow>
   sint (ucast ((scast (c::32 word) :: 64 word) + w) :: 32 word) = sint c + uint w"
  by (simp add: sint_ucast_sum signed_take_bit_int_eq_self)

lemma half_INT_MAX: "(scast (INT_MAX div 2) :: 64 word) = 1073741823"
  by (simp add: INT_MAX_def)

lemma acw_Some_sint:
  "sint (add_column_width w c (Some b) n) =
     (if 1073741823 \<le> uint n then 2147483647
      else if 0 \<le> sint (w (take (unat n) b)) \<and> sint (w (take (unat n) b)) \<le> 2147483647 - sint c
      then sint c + sint (w (take (unat n) b)) else 2147483647)"
  using sint32_bounds[of c] sint32_bounds[of "w (take (unat n) b)"]
  by (simp add: add_column_width_def Let_def half_INT_MAX word_le_def uint_remaining
       uint_scast_32_64 sint_ucast_sum_inrange sint_INT_MAX)

lemma acw_None_sint:
  "sint (add_column_width w c None n) =
     (if uint n \<le> 2147483647 - sint c then sint c + uint n else 2147483647)"
proof (cases "uint n \<le> 2147483647 - sint c")
  case True
  have "0 \<le> uint n" by simp
  with True sint32_bounds[of c]
  have "sint (ucast ((scast c :: 64 word) + n) :: 32 word) = sint c + uint n"
    by (intro sint_ucast_sum_inrange) linarith+
  with True show ?thesis
    by (simp add: add_column_width_def Let_def word_le_def uint_remaining)
next
  case False
  then show ?thesis
    by (simp add: add_column_width_def Let_def word_le_def uint_remaining sint_INT_MAX)
qed

lemma and7: "(x::32 word) AND 7 = take_bit 3 x"
proof -
  have "(7::32 word) = mask 3" by (simp add: mask_eq_exp_minus_1)
  then show ?thesis by (simp add: take_bit_eq_mask)
qed

lemma uint_and7: "uint (((c::32 word) - 1) AND 7) = (sint c - 1) mod 8"
proof -
  have "uint ((c - 1) AND 7) = take_bit 3 (uint (c - 1))"
    by (simp only: and7 unsigned_take_bit_eq)
  also have "\<dots> = take_bit 3 (take_bit 32 (uint c - 1))"
    by (simp add: uint_word_arith_bintrs(2))
  also have "\<dots> = take_bit 3 (uint c - 1)"
    by simp
  also have "\<dots> = take_bit 3 (take_bit 32 (sint c) - 1)"
    by (simp add: uint_sint)
  also have "\<dots> = (sint c mod 2 ^ 32 - 1) mod 8"
    by (simp add: take_bit_eq_mod)
  also have "\<dots> = (sint c mod 2 ^ 32 mod 8 - 1) mod 8"
    by (simp only: mod_diff_left_eq)
  also have "\<dots> = (sint c mod 8 - 1) mod 8"
    by (simp add: mod_mod_cancel)
  also have "\<dots> = (sint c - 1) mod 8"
    by (simp only: mod_diff_left_eq)
  finally show ?thesis .
qed

lemma tab_width:
  "uint (scast (8 - (((c::32 word) - 1) AND 7)) :: 64 word) = 8 - (sint c - 1) mod 8"
proof -
  let ?m = "(sint c - 1) mod 8"
  have m: "0 \<le> ?m" "?m < 8" by simp_all
  have "uint (8 - ((c - 1) AND 7)) = take_bit 32 (8 - ?m)"
    by (simp add: uint_word_arith_bintrs(2) uint_and7)
  also have "\<dots> = 8 - ?m"
    using m by (intro take_bit_int_eq_self) simp_all
  finally have u: "uint (8 - ((c - 1) AND 7)) = 8 - ?m" .
  have "sint (8 - ((c - 1) AND 7)) = signed_take_bit 31 (uint (8 - ((c - 1) AND 7)))"
    by (simp add: sint_uint)
  also have "\<dots> = 8 - ?m"
    unfolding u using m by (intro signed_take_bit_int_eq_self) simp_all
  finally have s: "sint (8 - ((c - 1) AND 7)) = 8 - ?m" .
  show ?thesis
    using m by (simp add: uint_scast_32_64 s)
qed

subsection \<open>Lemmas on the loop of location\_compute\<close>

lemma acw_ge: "sint c \<le> sint (add_column_width w c buf n)"
proof (cases buf)
  case None
  then show ?thesis using sint32_bounds[of c] by (simp add: acw_None_sint)
next
  case (Some b)
  then show ?thesis using sint32_bounds[of c] by (simp add: acw_Some_sint)
qed

lemma sint_eq_INT_MAX: "(c = INT_MAX) = (sint c = 2147483647)"
proof
  assume "c = INT_MAX" then show "sint c = 2147483647" by (simp add: sint_INT_MAX)
next
  assume "sint c = 2147483647"
  then have "sint c = sint INT_MAX" by (simp add: sint_INT_MAX)
  then show "c = INT_MAX" by (rule signed_word_eqI)
qed

lemma acw_saturated: "add_column_width w INT_MAX buf n = INT_MAX"
  using acw_ge[of INT_MAX w buf n] sint32_bounds[of "add_column_width w INT_MAX buf n"]
  by (simp add: sint_eq_INT_MAX sint_INT_MAX)

lemma sint_incr_line:
  "sint ((ln::32 word) + (if sint ln < sint INT_MAX then 1 else 0)) =
     (if sint ln < 2147483647 then sint ln + 1 else sint ln)"
  using sint32_bounds[of ln]
  by (simp add: sint_INT_MAX sint_word_add signed_take_bit_int_eq_self)

lemma scan_line_mono:
  "scan w token rest ln col p0 p = (ln', col', p0', p') \<Longrightarrow> sint ln \<le> sint ln'"
proof (induction rest arbitrary: ln col p0 p)
  case Nil
  then show ?case by simp
next
  case (Cons c rest)
  show ?case
  proof (cases "c = CHR 0x0A")
    case True
    with Cons.prems have
      "scan w token rest (ln + (if sint ln < sint INT_MAX then 1 else 0)) 1 (p + 1) (p + 1)
         = (ln', col', p0', p')" by simp
    from Cons.IH[OF this] show ?thesis
      by (simp add: sint_incr_line split: if_splits)
  next
    case False
    with Cons.prems Cons.IH show ?thesis
      by (auto simp: Let_def split: if_splits)
  qed
qed

lemma scan_col_mono:
  "scan w token rest ln col p0 p = (ln', col', p0', p') \<Longrightarrow>
   sint ln' = sint ln \<Longrightarrow> sint ln < 2147483647 \<or> CHR 0x0A \<notin> set rest \<Longrightarrow> sint col \<le> sint col'"
proof (induction rest arbitrary: ln col p0 p)
  case Nil
  then show ?case by simp
next
  case (Cons c rest)
  show ?case
  proof (cases "c = CHR 0x0A")
    case True
    with Cons.prems have lt: "sint ln < 2147483647" by simp
    from True Cons.prems have
      "scan w token rest (ln + (if sint ln < sint INT_MAX then 1 else 0)) 1 (p + 1) (p + 1)
         = (ln', col', p0', p')" by simp
    from scan_line_mono[OF this] lt have "sint ln + 1 \<le> sint ln'"
      by (simp add: sint_incr_line)
    with Cons.prems show ?thesis by simp
  next
    case nl: False
    show ?thesis
    proof (cases "c = CHR 0x09")
      case True
      let ?c1 = "add_column_width w col (Some (drop p0 token)) (of_nat (p - p0))"
      let ?c2 = "add_column_width w ?c1 None (scast (8 - ((?c1 - 1) AND 7)))"
      from True nl Cons.prems have s: "scan w token rest ln ?c2 (p + 1) (p + 1) = (ln', col', p0', p')"
        by (simp add: Let_def)
      from Cons.prems nl have "sint ln < 2147483647 \<or> CHR 0x0A \<notin> set rest" by auto
      from Cons.IH[OF s Cons.prems(2) this] have "sint ?c2 \<le> sint col'" .
      moreover have "sint col \<le> sint ?c1" by (rule acw_ge)
      moreover have "sint ?c1 \<le> sint ?c2" by (rule acw_ge)
      ultimately show ?thesis by linarith
    next
      case False
      with nl Cons.prems have s: "scan w token rest ln col p0 (p + 1) = (ln', col', p0', p')"
        by simp
      from Cons.prems nl have "sint ln < 2147483647 \<or> CHR 0x0A \<notin> set rest" by auto
      from Cons.IH[OF s Cons.prems(2) this] show ?thesis .
    qed
  qed
qed

lemma scan_positive:
  "scan w token rest ln col p0 p = (ln', col', p0', p') \<Longrightarrow> 1 \<le> sint col \<Longrightarrow> 1 \<le> sint col'"
proof (induction rest arbitrary: ln col p0 p)
  case Nil
  then show ?case by simp
next
  case (Cons c rest)
  show ?case
  proof (cases "c = CHR 0x0A")
    case True
    with Cons.prems have
      "scan w token rest (ln + (if sint ln < sint INT_MAX then 1 else 0)) 1 (p + 1) (p + 1)
         = (ln', col', p0', p')" by simp
    from Cons.IH[OF this] show ?thesis by simp
  next
    case nl: False
    show ?thesis
    proof (cases "c = CHR 0x09")
      case True
      let ?c1 = "add_column_width w col (Some (drop p0 token)) (of_nat (p - p0))"
      let ?c2 = "add_column_width w ?c1 None (scast (8 - ((?c1 - 1) AND 7)))"
      from True nl Cons.prems have s: "scan w token rest ln ?c2 (p + 1) (p + 1) = (ln', col', p0', p')"
        by (simp add: Let_def)
      have "sint col \<le> sint ?c1" by (rule acw_ge)
      moreover have "sint ?c1 \<le> sint ?c2" by (rule acw_ge)
      ultimately have "1 \<le> sint ?c2" using Cons.prems(2) by linarith
      from Cons.IH[OF s this] show ?thesis .
    next
      case False
      with nl Cons.prems have s: "scan w token rest ln col p0 (p + 1) = (ln', col', p0', p')"
        by simp
      from Cons.IH[OF s Cons.prems(2)] show ?thesis .
    qed
  qed
qed

lemma scan_plain:
  "CHR 0x0A \<notin> set xs \<Longrightarrow> CHR 0x09 \<notin> set xs \<Longrightarrow>
   scan w token (xs @ rest) ln col p0 p = scan w token rest ln col p0 (p + length xs)"
  by (induction xs arbitrary: p) auto

lemma scan_line_saturated:
  "scan w token rest INT_MAX col p0 p = (ln', col', p0', p') \<Longrightarrow> ln' = INT_MAX"
  using scan_line_mono[of w token rest INT_MAX col p0 p ln' col' p0' p'] sint32_bounds[of ln']
  by (simp add: sint_eq_INT_MAX sint_INT_MAX)

lemma scan_no_newline:
  "scan w token rest ln col p0 p = (ln', col', p0', p') \<Longrightarrow> CHR 0x0A \<notin> set rest \<Longrightarrow> ln' = ln"
  by (induction rest arbitrary: col p0 p) (auto simp: Let_def split: if_splits)

lemma scan_col_saturated:
  assumes "scan w token rest ln INT_MAX p0 p = (ln', col', p0', p')" and "CHR 0x0A \<notin> set rest"
  shows "col' = INT_MAX"
proof -
  from scan_no_newline[OF assms] have "sint ln' = sint ln" by simp
  from scan_col_mono[OF assms(1) this] assms(2) have "sint INT_MAX \<le> sint col'" by simp
  with sint32_bounds[of col'] show ?thesis by (simp add: sint_eq_INT_MAX sint_INT_MAX)
qed

lemma acw_empty: "w [] = 0 \<Longrightarrow> add_column_width w c (Some b) 0 = c"
proof -
  assume "w [] = 0"
  then have "sint (add_column_width w c (Some b) 0) = sint c"
    using sint32_bounds[of c] by (simp add: acw_Some_sint)
  then show ?thesis by (rule signed_word_eqI)
qed

lemma unat_of_nat_64: "n < 1073741823 \<Longrightarrow> unat (of_nat n :: 64 word) = n"
proof -
  assume "n < 1073741823"
  then have "n < 2 ^ 64" by simp
  then have "n mod 2 ^ 64 = n" by (rule mod_less)
  then show ?thesis by (simp add: unat_of_nat)
qed

lemma uint_of_nat_64: "n < 1073741823 \<Longrightarrow> uint (of_nat n :: 64 word) = int n"
  using unat_of_nat_64[of n] by (simp only: uint_nat)

lemma location_compute_tab:
  assumes w0: "w [] = 0"
    and plain: "CHR 0x0A \<notin> set seg" "CHR 0x09 \<notin> set seg"
    and len: "length seg < 1073741823"
  shows "fst (snd (location_compute w cur (seg @ [CHR 0x09]))) =
           cur\<lparr>line := line cur,
               column := add_column_width w
                  (add_column_width w (column cur) (Some (seg @ [CHR 0x09])) (of_nat (length seg)))
                  None
                  (scast (8 - ((add_column_width w (column cur) (Some (seg @ [CHR 0x09]))
                                  (of_nat (length seg)) - 1) AND 7)))\<rparr>"
  using plain w0
  by (simp add: location_compute_def scan_plain Let_def acw_empty)

lemma location_compute_tab_sint:
  assumes w0: "w [] = 0"
    and plain: "CHR 0x0A \<notin> set seg" "CHR 0x09 \<notin> set seg"
    and len: "length seg < 1073741823"
    and nonneg: "0 \<le> sint (w seg)"
  shows "sint (column (fst (snd (location_compute w cur (seg @ [CHR 0x09]))))) =
           (let flushed = (if sint (w seg) \<le> 2147483647 - sint (column cur)
                           then sint (column cur) + sint (w seg) else 2147483647);
                tab = 8 - (flushed - 1) mod 8
            in if tab \<le> 2147483647 - flushed then flushed + tab else 2147483647)"
proof -
  let ?c1 = "add_column_width w (column cur) (Some (seg @ [CHR 0x09])) (of_nat (length seg))"
  have u: "uint (of_nat (length seg) :: 64 word) = int (length seg)"
    using len by (rule uint_of_nat_64)
  have n: "unat (of_nat (length seg) :: 64 word) = length seg"
    using len by (rule unat_of_nat_64)
  have c1: "sint ?c1 = (if sint (w seg) \<le> 2147483647 - sint (column cur)
                           then sint (column cur) + sint (w seg) else 2147483647)"
    using len nonneg by (simp add: acw_Some_sint u n)
  note t = location_compute_tab[where w = w and seg = seg and cur = cur, OF w0 plain len]
  have "column (fst (snd (location_compute w cur (seg @ [CHR 0x09])))) =
          add_column_width w ?c1 None (scast (8 - ((?c1 - 1) AND 7)))"
    by (simp add: t)
  then have "sint (column (fst (snd (location_compute w cur (seg @ [CHR 0x09]))))) =
          (if 8 - (sint ?c1 - 1) mod 8 \<le> 2147483647 - sint ?c1
           then sint ?c1 + (8 - (sint ?c1 - 1) mod 8) else 2147483647)"
    by (simp only: acw_None_sint tab_width)
  then show ?thesis
    by (simp only: c1 Let_def)
qed

subsection \<open>Lemmas on printing, parsing and the caret loop\<close>

lemma digits_small: "n < 10 \<Longrightarrow> digits n = [digit_char n]"
  by (simp add: digits.simps)

lemma print_res_out: "fst (print_res s st) = fst st @ map Err_char s"
  by (simp add: print_res_def err_printf_def)

lemma printf_d_small: "printf_d 3 = ''3''" "printf_d 5 = ''5''" "printf_d 4 = ''4''" "printf_d 1 = ''1''"
  by (simp_all add: printf_d_def digits_small digit_char_def)

lemma strrchr_absent: "c \<notin> set s \<Longrightarrow> strrchr s c = None"
  by (induction s) auto

lemma strrchr_last: "c \<notin> set t \<Longrightarrow> strrchr (p @ c # t) c = Some (length p)"
  by (induction p) (auto simp: strrchr_absent)

lemma atoi_examples: "atoi ''12'' = 12" "atoi ''7'' = 7"
  by (simp_all add: atoi_def atoi_digits_def isspace_def isdigit_def digit_value_def)

lemma parse_general:
  assumes "CHR ''.'' \<notin> set c" and "CHR '':'' \<notin> set l"
  shows "boundary_set_from_string bound (f @ '':'' @ l @ ''.'' @ c)
           = Inr \<lparr>file' = Some f, line = atoi l, column = atoi c\<rparr>"
proof -
  have 1: "strrchr (f @ '':'' @ l @ ''.'' @ c) (CHR ''.'') = Some (length (f @ '':'' @ l))"
    using strrchr_last[OF assms(1), of "f @ '':'' @ l"] by simp
  have 2: "strrchr (f @ '':'' @ l) (CHR '':'') = Some (length f)"
    using strrchr_last[OF assms(2), of f] by simp
  have t: "take (length (f @ '':'' @ l)) (f @ '':'' @ l @ ''.'' @ c) = f @ '':'' @ l"
    by simp
  have d: "drop (length (f @ '':'' @ l) + 1) (f @ '':'' @ l @ ''.'' @ c) = c"
    by simp
  have t2: "take (length f) (f @ '':'' @ l) = f" by simp
  have d2: "drop (length f + 1) (f @ '':'' @ l) = l" by simp
  show ?thesis
    unfolding boundary_set_from_string_def 1 option.case Let_def t d 2 t2 d2
    by (simp add: uniqstr_new_def)
qed

lemma parse_no_colon:
  assumes "CHR ''.'' \<notin> set c" and "CHR '':'' \<notin> set p"
  shows "boundary_set_from_string bound (p @ ''.'' @ c) = Inl Aver_failed"
proof -
  have 1: "strrchr (p @ CHR ''.'' # c) (CHR ''.'') = Some (length p)"
    using assms(1) by (rule strrchr_last)
  have 2: "strrchr p (CHR '':'') = None"
    using assms(2) by (rule strrchr_absent)
  show ?thesis
    by (simp add: boundary_set_from_string_def 1 2 Let_def)
qed

lemma advance_stuck:
  assumes "advance_to_line target ln f = Some y"
  shows "\<not> (length (contents f) \<le> pos f \<and> ln < scast target)"
  using assms
proof (rule advance_to_line.raw_induct
    [rotated, where P = "\<lambda>target ln f y. \<not> (length (contents f) \<le> pos f \<and> ln < scast target)"])
  fix advance :: "c_int \<Rightarrow> size_t \<Rightarrow> FILE \<Rightarrow> (size_t \<times> FILE) option"
  fix target ln f y
  assume IH: "\<And>target ln f y. advance target ln f = Some y \<Longrightarrow>
                \<not> (length (contents f) \<le> pos f \<and> ln < scast target)"
  assume step: "(if ln < scast target
      then advance target (ln + (if fst (getc f) = Some (CHR 0x0A) then 1 else 0)) (snd (getc f))
      else Some (ln, f)) = Some y"
  show "\<not> (length (contents f) \<le> pos f \<and> ln < scast target)"
  proof
    assume a: "length (contents f) \<le> pos f \<and> ln < scast target"
    then have g: "getc f = (None, f)" by (simp add: getc_def)
    from step a g have "advance target ln f = Some y" by simp
    from IH[OF this] a show False by simp
  qed
qed

lemma advance_diverges:
  "unat ln + count_list (drop (pos f) (contents f)) (CHR 0x0A) < unat (scast target :: size_t) \<Longrightarrow>
   advance_to_line target ln f = None"
proof (induction "length (contents f) - pos f" arbitrary: ln f)
  case 0
  then have e: "length (contents f) \<le> pos f" by simp
  with "0.prems" have "unat ln < unat (scast target :: size_t)" by simp
  then have "ln < scast target" by (simp add: word_less_nat_alt)
  with e advance_stuck[of target ln f] show ?case
    by (cases "advance_to_line target ln f") auto
next
  case (Suc n)
  then have p: "pos f < length (contents f)" by simp
  let ?c = "contents f ! pos f"
  let ?f' = "f\<lparr>pos := pos f + 1\<rparr>"
  let ?d = "(if ?c = CHR 0x0A then 1 else 0) :: size_t"
  have g: "getc f = (Some ?c, ?f')" using p by (simp add: getc_def)
  have dr: "drop (pos f) (contents f) = ?c # drop (pos ?f') (contents ?f')"
    using p by (simp add: Cons_nth_drop_Suc)
  from Suc.prems have lt: "unat ln < unat (scast target :: size_t)" by simp
  then have lt': "ln < scast target" by (simp add: word_less_nat_alt)
  have u: "unat (ln + ?d) = unat ln + (if ?c = CHR 0x0A then 1 else 0)"
  proof (cases "?c = CHR 0x0A")
    case True
    have "unat (scast target :: size_t) < 2 ^ 64"
      using unsigned_less[of "scast target :: size_t"] by simp
    with lt have "unat ln + 1 < 2 ^ 64" by simp
    then have "(unat ln + 1) mod 2 ^ 64 = unat ln + 1" by (rule mod_less)
    then have "unat (ln + 1) = unat ln + 1"
      by (simp add: unat_word_ariths)
    with True show ?thesis by simp
  next
    case False
    then show ?thesis by simp
  qed
  have "unat (ln + ?d) + count_list (drop (pos ?f') (contents ?f')) (CHR 0x0A)
          < unat (scast target :: size_t)"
    using Suc.prems by (simp only: u dr count_list.simps) (simp split: if_splits)
  moreover have "n = length (contents ?f') - pos ?f'" using Suc(2) by simp
  ultimately have "advance_to_line target (ln + ?d) ?f' = None"
    by (rule Suc(1)[rotated])
  then show ?case
    using lt' g by (subst advance_to_line.simps) simp
qed

subsection \<open>The claims on location\_compute and add\_column\_width\<close>

text \<open>
  C1, amended. A call of \<open>location_compute\<close> reports the line number overflow exactly
  when the updated line is \<open>INT_MAX\<close> and the start line of the location was not, and the
  column number overflow exactly when the updated column is \<open>INT_MAX\<close> and the start
  column was not. A saturated line stays saturated and the call does not report it again. A
  call that starts at a saturated column does not report the column overflow, and the
  column stays saturated when the token has no newline.
\<close>

theorem location_compute_overflow_warnings:
  "case location_compute w cur token of (loc, cur', ws) \<Rightarrow>
     (Complain loc Wother ''line number overflow'' \<in> set ws \<longleftrightarrow>
        line cur' = INT_MAX \<and> line (start loc) \<noteq> INT_MAX) \<and>
     (Complain loc Wother ''column number overflow'' \<in> set ws \<longleftrightarrow>
        column cur' = INT_MAX \<and> column (start loc) \<noteq> INT_MAX) \<and>
     (line cur = INT_MAX \<longrightarrow>
        line cur' = INT_MAX \<and> Complain loc Wother ''line number overflow'' \<notin> set ws) \<and>
     (column cur = INT_MAX \<longrightarrow>
        Complain loc Wother ''column number overflow'' \<notin> set ws \<and>
        (CHR 0x0A \<notin> set token \<longrightarrow> column cur' = INT_MAX))"
proof -
  obtain ln col0 p0 p where s: "scan w token token (line cur) (column cur) 0 0 = (ln, col0, p0, p)"
    by (metis prod_cases4)
  have l: "line cur = INT_MAX \<Longrightarrow> ln = INT_MAX"
    using s scan_line_saturated by metis
  have c: "column cur = INT_MAX \<Longrightarrow> CHR 0x0A \<notin> set token \<Longrightarrow> col0 = INT_MAX"
    using s scan_col_saturated by metis
  show ?thesis
    using l c by (auto simp: location_compute_def s Let_def acw_saturated)
qed

theorem location_compute_overflow_warnings_witness:
  "line (fst (snd (location_compute byte_width
       \<lparr>file' = Some ''f'', line = 2147483646, column = 5\<rparr> [CHR 0x0A]))) = INT_MAX \<and>
   line (start (fst (location_compute byte_width
       \<lparr>file' = Some ''f'', line = 2147483646, column = 5\<rparr> [CHR 0x0A]))) \<noteq> INT_MAX \<and>
   Complain (fst (location_compute byte_width
       \<lparr>file' = Some ''f'', line = 2147483646, column = 5\<rparr> [CHR 0x0A])) Wother ''line number overflow''
     \<in> set (snd (snd (location_compute byte_width
       \<lparr>file' = Some ''f'', line = 2147483646, column = 5\<rparr> [CHR 0x0A]))) \<and>
   column \<lparr>file' = Some ''f'', line = INT_MAX, column = INT_MAX\<rparr> = INT_MAX \<and>
   line \<lparr>file' = Some ''f'', line = INT_MAX, column = INT_MAX\<rparr> = INT_MAX \<and>
   CHR 0x0A \<notin> set ''ab'' \<and>
   line (fst (snd (location_compute byte_width
       \<lparr>file' = Some ''f'', line = INT_MAX, column = INT_MAX\<rparr> ''ab''))) = INT_MAX \<and>
   column (fst (snd (location_compute byte_width
       \<lparr>file' = Some ''f'', line = INT_MAX, column = INT_MAX\<rparr> ''ab''))) = INT_MAX \<and>
   snd (snd (location_compute byte_width
       \<lparr>file' = Some ''f'', line = INT_MAX, column = INT_MAX\<rparr> ''ab'')) = []"
  using location_compute_overflow_warnings [where w = byte_width and cur = "\<lparr>file' = Some ''f'', line = 2147483646, column = 5\<rparr>"
      and token = "[CHR 0x0A]"]
    location_compute_overflow_warnings [where w = byte_width and cur = "\<lparr>file' = Some ''f'', line = INT_MAX, column = INT_MAX\<rparr>"
      and token = "''ab''"]
  by (simp add: location_compute_def byte_width_def add_column_width_def INT_MAX_def Let_def)

text \<open>
  C1 as stated fails for the column: a newline sets a saturated column back to 1.
\<close>

theorem column_saturation_counterexample:
  "\<not> sint (column \<lparr>file' = Some ''f'', line = 7, column = INT_MAX\<rparr>)
       \<le> sint (column (fst (snd (location_compute byte_width
             \<lparr>file' = Some ''f'', line = 7, column = INT_MAX\<rparr> [CHR 0x0A]))))"
  by (simp add: location_compute_def byte_width_def acw_Some_sint Let_def sint_INT_MAX)

text \<open>
  C3, amended. The location that \<open>location_compute\<close> produces starts at the cursor and
  ends at the updated cursor, in the same file; the end line is not before the start
  line; and when both lines are equal, the end column is not before the start column,
  provided the start line is not \<open>INT_MAX\<close> or the token has no newline.
\<close>

theorem location_compute_forward:
  "case location_compute w cur token of (loc, cur', ws) \<Rightarrow>
     start loc = cur \<and> end' loc = cur' \<and>
     file' (end' loc) = file' (start loc) \<and>
     sint (line (start loc)) \<le> sint (line (end' loc)) \<and>
     (line (end' loc) = line (start loc) \<and>
      (line (start loc) \<noteq> INT_MAX \<or> CHR 0x0A \<notin> set token) \<longrightarrow>
        sint (column (start loc)) \<le> sint (column (end' loc)))"
proof -
  obtain ln col0 p0 p where s: "scan w token token (line cur) (column cur) 0 0 = (ln, col0, p0, p)"
    by (metis prod_cases4)
  let ?col = "add_column_width w col0 (Some (drop p0 token)) (of_nat (p - p0))"
  have 1: "sint (line cur) \<le> sint ln"
    using s by (rule scan_line_mono)
  have 2: "sint (column cur) \<le> sint ?col"
    if "ln = line cur" and "line cur \<noteq> INT_MAX \<or> CHR 0x0A \<notin> set token"
  proof -
    from that(2) sint32_bounds[of "line cur"]
    have "sint (line cur) < 2147483647 \<or> CHR 0x0A \<notin> set token"
      by (auto simp: sint_eq_INT_MAX)
    with scan_col_mono[OF s] that(1) have "sint (column cur) \<le> sint col0" by simp
    also have "\<dots> \<le> sint ?col" by (rule acw_ge)
    finally show ?thesis .
  qed
  show ?thesis
    using 1 2 by (simp add: location_compute_def s Let_def)
qed

theorem location_compute_forward_witness:
  "line (end' (fst (location_compute byte_width
       \<lparr>file' = Some ''f'', line = 3, column = 5\<rparr> ''ab'')))
     = line (start (fst (location_compute byte_width
       \<lparr>file' = Some ''f'', line = 3, column = 5\<rparr> ''ab''))) \<and>
   line (start (fst (location_compute byte_width
       \<lparr>file' = Some ''f'', line = 3, column = 5\<rparr> ''ab''))) \<noteq> INT_MAX \<and>
   sint (column (start (fst (location_compute byte_width
       \<lparr>file' = Some ''f'', line = 3, column = 5\<rparr> ''ab''))))
     \<le> sint (column (end' (fst (location_compute byte_width
       \<lparr>file' = Some ''f'', line = 3, column = 5\<rparr> ''ab''))))"
  using location_compute_forward [where w = byte_width and cur = "\<lparr>file' = Some ''f'', line = 3, column = 5\<rparr>"
      and token = "''ab''"]
  by (simp add: location_compute_def byte_width_def add_column_width_def INT_MAX_def Let_def)

text \<open>
  C3 as stated fails at a saturated line: a newline leaves the line at \<open>INT_MAX\<close> and
  sets the column back to 1.
\<close>

theorem location_compute_backward_counterexample:
  "line (end' (fst (location_compute byte_width
       \<lparr>file' = Some ''f'', line = INT_MAX, column = 50\<rparr> [CHR 0x0A])))
   = line (start (fst (location_compute byte_width
       \<lparr>file' = Some ''f'', line = INT_MAX, column = 50\<rparr> [CHR 0x0A]))) \<and>
   \<not> sint (column (start (fst (location_compute byte_width
       \<lparr>file' = Some ''f'', line = INT_MAX, column = 50\<rparr> [CHR 0x0A]))))
     \<le> sint (column (end' (fst (location_compute byte_width
       \<lparr>file' = Some ''f'', line = INT_MAX, column = 50\<rparr> [CHR 0x0A]))))"
  by (simp add: location_compute_def byte_width_def acw_Some_sint Let_def sint_INT_MAX)

text \<open>
  C4. Provided the width of no bytes is 0: a token that is a single tab takes column 1 to
  column 9 and column 5 to column 9. In general, for a token made of a segment without
  tabs and newlines and then a tab, the line is unchanged and the column is first
  advanced by the width of the segment and then by \<open>8 - ((column - 1) mod 8)\<close>, each
  addition saturating at \<open>INT_MAX\<close>.
\<close>

theorem location_compute_tab_stop:
  assumes "mbsnwidth [] = 0"
  shows "(column cur = 1 \<longrightarrow>
            column (fst (snd (location_compute mbsnwidth cur [CHR 0x09]))) = 9) \<and>
         (column cur = 5 \<longrightarrow>
            column (fst (snd (location_compute mbsnwidth cur [CHR 0x09]))) = 9) \<and>
         (CHR 0x0A \<notin> set seg \<and> CHR 0x09 \<notin> set seg \<and>
          int (length seg) < sint INT_MAX div 2 \<and> 0 \<le> sint (mbsnwidth seg) \<longrightarrow>
            line (fst (snd (location_compute mbsnwidth cur (seg @ [CHR 0x09])))) = line cur \<and>
            sint (column (fst (snd (location_compute mbsnwidth cur (seg @ [CHR 0x09]))))) =
              (let flushed = (if sint (mbsnwidth seg) \<le> sint INT_MAX - sint (column cur)
                              then sint (column cur) + sint (mbsnwidth seg) else sint INT_MAX);
                   tab = 8 - (flushed - 1) mod 8
               in if tab \<le> sint INT_MAX - flushed then flushed + tab else sint INT_MAX))"
proof (intro conjI impI)
  assume c: "column cur = 1"
  have "sint (column (fst (snd (location_compute mbsnwidth cur ([] @ [CHR 0x09]))))) = sint (9 :: c_int)"
    using assms location_compute_tab_sint[where w = mbsnwidth and seg = "[]" and cur = cur]
    by (simp add: c)
  then show "column (fst (snd (location_compute mbsnwidth cur [CHR 0x09]))) = 9"
    by (simp only: append_Nil) (rule signed_word_eqI)
next
  assume c: "column cur = 5"
  have "sint (column (fst (snd (location_compute mbsnwidth cur ([] @ [CHR 0x09]))))) = sint (9 :: c_int)"
    using assms location_compute_tab_sint[where w = mbsnwidth and seg = "[]" and cur = cur]
    by (simp add: c)
  then show "column (fst (snd (location_compute mbsnwidth cur [CHR 0x09]))) = 9"
    by (simp only: append_Nil) (rule signed_word_eqI)
next
  assume h: "CHR 0x0A \<notin> set seg \<and> CHR 0x09 \<notin> set seg \<and>
          int (length seg) < sint INT_MAX div 2 \<and> 0 \<le> sint (mbsnwidth seg)"
  then have len: "length seg < 1073741823" by (simp add: sint_INT_MAX)
  from h assms len show "line (fst (snd (location_compute mbsnwidth cur (seg @ [CHR 0x09])))) = line cur"
    by (simp add: location_compute_tab)
next
  assume h: "CHR 0x0A \<notin> set seg \<and> CHR 0x09 \<notin> set seg \<and>
          int (length seg) < sint INT_MAX div 2 \<and> 0 \<le> sint (mbsnwidth seg)"
  then have len: "length seg < 1073741823" by (simp add: sint_INT_MAX)
  from h have p: "CHR 0x0A \<notin> set seg" "CHR 0x09 \<notin> set seg" "0 \<le> sint (mbsnwidth seg)"
    by simp_all
  show "sint (column (fst (snd (location_compute mbsnwidth cur (seg @ [CHR 0x09]))))) =
              (let flushed = (if sint (mbsnwidth seg) \<le> sint INT_MAX - sint (column cur)
                              then sint (column cur) + sint (mbsnwidth seg) else sint INT_MAX);
                   tab = 8 - (flushed - 1) mod 8
               in if tab \<le> sint INT_MAX - flushed then flushed + tab else sint INT_MAX)"
    by (simp only: sint_INT_MAX
          location_compute_tab_sint[where w = mbsnwidth and seg = seg and cur = cur,
            OF assms p(1) p(2) len p(3)])
qed

theorem location_compute_tab_stop_witness:
  "byte_width [] = 0 \<and>
   column \<lparr>file' = Some ''f'', line = 1, column = 1\<rparr> = 1 \<and>
   column (fst (snd (location_compute byte_width \<lparr>file' = Some ''f'', line = 1, column = 1\<rparr> [CHR 0x09]))) = 9 \<and>
   column \<lparr>file' = Some ''f'', line = 1, column = 5\<rparr> = 5 \<and>
   column (fst (snd (location_compute byte_width \<lparr>file' = Some ''f'', line = 1, column = 5\<rparr> [CHR 0x09]))) = 9 \<and>
   CHR 0x0A \<notin> set ''ab'' \<and> CHR 0x09 \<notin> set ''ab'' \<and>
   int (length ''ab'') < sint INT_MAX div 2 \<and> 0 \<le> sint (byte_width ''ab'') \<and>
   sint (column (fst (snd (location_compute byte_width
       \<lparr>file' = Some ''f'', line = 1, column = 9\<rparr> (''ab'' @ [CHR 0x09]))))) = 17"
proof -
  have h: "byte_width [] = 0" by (simp add: byte_width_def)
  show ?thesis
    using h
      location_compute_tab_stop [of byte_width "\<lparr>file' = Some ''f'', line = 1, column = 1\<rparr>" "''ab''"]
      location_compute_tab_stop [of byte_width "\<lparr>file' = Some ''f'', line = 1, column = 5\<rparr>" "''ab''"]
      location_compute_tab_stop [of byte_width "\<lparr>file' = Some ''f'', line = 1, column = 9\<rparr>" "''ab''"]
    by (simp add: byte_width_def sint_INT_MAX Let_def)
qed

text \<open>
  C5. For a nonnegative column and a segment (a buffer that is not null):
  \<open>add_column_width\<close> returns \<open>INT_MAX\<close> when the byte length is at least
  \<open>INT_MAX / 2\<close>; otherwise it returns the column plus the width when the width is at
  most \<open>INT_MAX - column\<close>, and \<open>INT_MAX\<close> when the width is larger. The width is that of
  \<open>mbsnwidth\<close> with no flags, which is never negative.
\<close>

theorem add_column_width_saturates:
  assumes "0 \<le> sint col"
  shows "(sint INT_MAX div 2 \<le> uint bufsize \<longrightarrow>
            add_column_width mbsnwidth col (Some buf) bufsize = INT_MAX) \<and>
         (uint bufsize < sint INT_MAX div 2 \<and>
          0 \<le> sint (mbsnwidth (take (unat bufsize) buf)) \<and>
          sint (mbsnwidth (take (unat bufsize) buf)) \<le> sint INT_MAX - sint col \<longrightarrow>
            sint (add_column_width mbsnwidth col (Some buf) bufsize)
              = sint col + sint (mbsnwidth (take (unat bufsize) buf))) \<and>
         (uint bufsize < sint INT_MAX div 2 \<and>
          sint INT_MAX - sint col < sint (mbsnwidth (take (unat bufsize) buf)) \<longrightarrow>
            add_column_width mbsnwidth col (Some buf) bufsize = INT_MAX)"
  using assms by (simp add: sint_eq_INT_MAX acw_Some_sint sint_INT_MAX)

theorem add_column_width_saturates_witness:
  "0 \<le> sint (5 :: c_int) \<and> uint (3 :: size_t) < sint INT_MAX div 2 \<and>
   0 \<le> sint (byte_width (take (unat (3 :: size_t)) ''abcd'')) \<and>
   sint (byte_width (take (unat (3 :: size_t)) ''abcd'')) \<le> sint INT_MAX - sint (5 :: c_int) \<and>
   sint (add_column_width byte_width 5 (Some ''abcd'') 3) = 8 \<and>
   sint INT_MAX div 2 \<le> uint (1073741823 :: size_t) \<and>
   add_column_width byte_width 5 (Some ''abcd'') 1073741823 = INT_MAX \<and>
   sint INT_MAX - sint (2147483646 :: c_int) < sint (byte_width (take (unat (3 :: size_t)) ''abcd'')) \<and>
   add_column_width byte_width 2147483646 (Some ''abcd'') 3 = INT_MAX"
  using add_column_width_saturates [of 5 3 byte_width "''abcd''"]
    add_column_width_saturates [of 5 1073741823 byte_width "''abcd''"]
    add_column_width_saturates [of 2147483646 3 byte_width "''abcd''"]
  by (simp add: byte_width_def sint_INT_MAX)

text \<open>
  C9. Provided the width of no bytes is 0, \<open>location_compute\<close> on an empty token leaves
  the cursor as it is, produces the location that starts and ends at the cursor, and
  reports nothing.
\<close>

theorem location_compute_empty_token:
  assumes "mbsnwidth [] = 0"
  shows "location_compute mbsnwidth cur [] = (\<lparr>start = cur, end' = cur\<rparr>, cur, [])"
  using assms by (simp add: location_compute_def acw_empty)

theorem location_compute_empty_token_witness:
  "byte_width [] = 0 \<and>
   location_compute byte_width \<lparr>file' = Some ''f'', line = 3, column = - 1\<rparr> []
     = (\<lparr>start = \<lparr>file' = Some ''f'', line = 3, column = - 1\<rparr>,
         end' = \<lparr>file' = Some ''f'', line = 3, column = - 1\<rparr>\<rparr>,
        \<lparr>file' = Some ''f'', line = 3, column = - 1\<rparr>, [])"
proof -
  have h: "byte_width [] = 0" by (simp add: byte_width_def)
  show ?thesis
    using h location_compute_empty_token [of byte_width "\<lparr>file' = Some ''f'', line = 3, column = - 1\<rparr>"]
    by simp
qed

text \<open>
  C10. When the line and the column of the cursor are at least 1, so are the line and the
  column of the cursor that \<open>location_compute\<close> returns, whatever the token.
\<close>

theorem location_compute_positive:
  assumes "1 \<le> sint (line cur)" and "1 \<le> sint (column cur)"
  shows "case location_compute w cur token of (loc, cur', ws) \<Rightarrow>
           1 \<le> sint (line cur') \<and> 1 \<le> sint (column cur')"
proof -
  obtain ln col0 p0 p where s: "scan w token token (line cur) (column cur) 0 0 = (ln, col0, p0, p)"
    by (metis prod_cases4)
  let ?col = "add_column_width w col0 (Some (drop p0 token)) (of_nat (p - p0))"
  have "sint (line cur) \<le> sint ln" using s by (rule scan_line_mono)
  with assms(1) have 1: "1 \<le> sint ln" by linarith
  have "1 \<le> sint col0" using s assms(2) by (rule scan_positive)
  moreover have "sint col0 \<le> sint ?col" by (rule acw_ge)
  ultimately have 2: "1 \<le> sint ?col" by linarith
  show ?thesis
    using 1 2 by (simp add: location_compute_def s Let_def)
qed

theorem location_compute_positive_witness:
  "1 \<le> sint (line \<lparr>file' = Some ''f'', line = 3, column = 5\<rparr>) \<and>
   1 \<le> sint (column \<lparr>file' = Some ''f'', line = 3, column = 5\<rparr>) \<and>
   1 \<le> sint (line (fst (snd (location_compute byte_width
          \<lparr>file' = Some ''f'', line = 3, column = 5\<rparr> [CHR ''a'', CHR 0x09, CHR 0x0A, CHR ''b''])))) \<and>
   1 \<le> sint (column (fst (snd (location_compute byte_width
          \<lparr>file' = Some ''f'', line = 3, column = 5\<rparr> [CHR ''a'', CHR 0x09, CHR 0x0A, CHR ''b'']))))"
  using location_compute_positive [of "\<lparr>file' = Some ''f'', line = 3, column = 5\<rparr>" byte_width
      "[CHR ''a'', CHR 0x09, CHR 0x0A, CHR ''b'']"]
  by (simp add: split_beta)

subsection \<open>The claims on location\_print, location\_caret and boundary\_set\_from\_string\<close>

text \<open>
  C6. When the quoting leaves the name \<open>f\<close> as it is, the location from \<open>f\<close>, line 3,
  column 5 to the same point is written as \<open>f:3.5\<close>, and the location from there to
  \<open>f\<close>, line 4, column 2 as \<open>f:3.5-4.1\<close>. In general, in each of the three branches
  that write the end column, what is written is the end column minus one, and 0 when the
  end column is 0.
\<close>

theorem location_print_end_column:
  assumes "quotearg (Some ''f'') = ''f''"
  shows
    "fst (location_print quotearg
        \<lparr>start = \<lparr>file' = Some ''f'', line = 3, column = 5\<rparr>,
         end' = \<lparr>file' = Some ''f'', line = 3, column = 5\<rparr>\<rparr> []) = map Err_char ''f:3.5'' \<and>
     fst (location_print quotearg
        \<lparr>start = \<lparr>file' = Some ''f'', line = 3, column = 5\<rparr>,
         end' = \<lparr>file' = Some ''f'', line = 4, column = 2\<rparr>\<rparr> []) = map Err_char ''f:3.5-4.1'' \<and>
     (let end_col = (if column (end' loc) = 0 then 0 else column (end' loc) - 1);
          start_text = quotearg (file' (start loc)) @
            (if 0 \<le> sint (line (start loc))
             then '':'' @ printf_d (line (start loc)) @
               (if 0 \<le> sint (column (start loc)) then ''.'' @ printf_d (column (start loc)) else [])
             else [])
      in (file' (start loc) \<noteq> file' (end' loc) \<and> 0 \<le> sint (line (end' loc)) \<and> 0 \<le> sint end_col \<longrightarrow>
            fst (location_print quotearg loc out) =
              out @ map Err_char (start_text @ ''-'' @ quotearg (file' (end' loc)) @
                     '':'' @ printf_d (line (end' loc)) @ ''.'' @ printf_d end_col)) \<and>
         (file' (start loc) = file' (end' loc) \<and> 0 \<le> sint (line (end' loc)) \<and>
          sint (line (start loc)) < sint (line (end' loc)) \<and> 0 \<le> sint end_col \<longrightarrow>
            fst (location_print quotearg loc out) =
              out @ map Err_char (start_text @ ''-'' @ printf_d (line (end' loc)) @
                     ''.'' @ printf_d end_col)) \<and>
         (file' (start loc) = file' (end' loc) \<and> 0 \<le> sint (line (end' loc)) \<and>
          sint (line (end' loc)) \<le> sint (line (start loc)) \<and>
          0 \<le> sint end_col \<and> sint (column (start loc)) < sint end_col \<longrightarrow>
            fst (location_print quotearg loc out) =
              out @ map Err_char (start_text @ ''-'' @ printf_d end_col)))"
proof (intro conjI)
  show "fst (location_print quotearg
        \<lparr>start = \<lparr>file' = Some ''f'', line = 3, column = 5\<rparr>,
         end' = \<lparr>file' = Some ''f'', line = 3, column = 5\<rparr>\<rparr> []) = map Err_char ''f:3.5''"
    using assms by (simp add: location_print_def Let_def print_res_out printf_d_small)
  show "fst (location_print quotearg
        \<lparr>start = \<lparr>file' = Some ''f'', line = 3, column = 5\<rparr>,
         end' = \<lparr>file' = Some ''f'', line = 4, column = 2\<rparr>\<rparr> []) = map Err_char ''f:3.5-4.1''"
    using assms by (simp add: location_print_def Let_def print_res_out printf_d_small)
  show "(let end_col = (if column (end' loc) = 0 then 0 else column (end' loc) - 1);
          start_text = quotearg (file' (start loc)) @
            (if 0 \<le> sint (line (start loc))
             then '':'' @ printf_d (line (start loc)) @
               (if 0 \<le> sint (column (start loc)) then ''.'' @ printf_d (column (start loc)) else [])
             else [])
      in (file' (start loc) \<noteq> file' (end' loc) \<and> 0 \<le> sint (line (end' loc)) \<and> 0 \<le> sint end_col \<longrightarrow>
            fst (location_print quotearg loc out) =
              out @ map Err_char (start_text @ ''-'' @ quotearg (file' (end' loc)) @
                     '':'' @ printf_d (line (end' loc)) @ ''.'' @ printf_d end_col)) \<and>
         (file' (start loc) = file' (end' loc) \<and> 0 \<le> sint (line (end' loc)) \<and>
          sint (line (start loc)) < sint (line (end' loc)) \<and> 0 \<le> sint end_col \<longrightarrow>
            fst (location_print quotearg loc out) =
              out @ map Err_char (start_text @ ''-'' @ printf_d (line (end' loc)) @
                     ''.'' @ printf_d end_col)) \<and>
         (file' (start loc) = file' (end' loc) \<and> 0 \<le> sint (line (end' loc)) \<and>
          sint (line (end' loc)) \<le> sint (line (start loc)) \<and>
          0 \<le> sint end_col \<and> sint (column (start loc)) < sint end_col \<longrightarrow>
            fst (location_print quotearg loc out) =
              out @ map Err_char (start_text @ ''-'' @ printf_d end_col)))"
    by (simp add: location_print_def Let_def print_res_out)
qed

theorem location_print_end_column_witness:
  "quote_plain (Some ''f'') = ''f'' \<and>
   fst (location_print quote_plain
        \<lparr>start = \<lparr>file' = Some ''f'', line = 3, column = 5\<rparr>,
         end' = \<lparr>file' = Some ''f'', line = 3, column = 5\<rparr>\<rparr> []) = map Err_char ''f:3.5'' \<and>
   fst (location_print quote_plain
        \<lparr>start = \<lparr>file' = Some ''f'', line = 3, column = 5\<rparr>,
         end' = \<lparr>file' = Some ''f'', line = 4, column = 2\<rparr>\<rparr> []) = map Err_char ''f:3.5-4.1'' \<and>
   fst (location_print quote_plain
        \<lparr>start = \<lparr>file' = Some ''f'', line = 3, column = 5\<rparr>,
         end' = \<lparr>file' = Some ''g'', line = 7, column = 0\<rparr>\<rparr> []) = map Err_char ''f:3.5-g:7.0'' \<and>
   fst (location_print quote_plain
        \<lparr>start = \<lparr>file' = Some ''f'', line = 3, column = 5\<rparr>,
         end' = \<lparr>file' = Some ''f'', line = 3, column = 10\<rparr>\<rparr> []) = map Err_char ''f:3.5-9''"
proof -
  have h: "quote_plain (Some ''f'') = ''f''" by (simp add: quote_plain_def)
  show ?thesis
    using h
      location_print_end_column [where quotearg = quote_plain and out = "[]" and loc =
        "\<lparr>start = \<lparr>file' = Some ''f'', line = 3, column = 5\<rparr>,
          end' = \<lparr>file' = Some ''g'', line = 7, column = 0\<rparr>\<rparr>"]
      location_print_end_column [where quotearg = quote_plain and out = "[]" and loc =
        "\<lparr>start = \<lparr>file' = Some ''f'', line = 3, column = 5\<rparr>,
          end' = \<lparr>file' = Some ''f'', line = 3, column = 10\<rparr>\<rparr>"]
    by (simp add: quote_plain_def printf_d_def digits_small digit_char_def)
qed



text \<open>
  C8. \<open>boundary_set_from_string\<close> on \<open>myfile.y:12.7\<close> gives the file \<open>myfile.y\<close>, line 12
  and column 7. It fails on a string without a dot, and on a string without a colon before
  its last dot. On a string with a colon before its last dot it splits at the last dot and
  at the last colon before it.
\<close>

theorem boundary_set_from_string_parses:
  "boundary_set_from_string bound ''myfile.y:12.7''
     = Inr \<lparr>file' = Some ''myfile.y'', line = 12, column = 7\<rparr> \<and>
   (CHR ''.'' \<notin> set s \<longrightarrow> boundary_set_from_string bound s = Inl Aver_failed) \<and>
   (CHR ''.'' \<notin> set c \<and> CHR '':'' \<notin> set p \<longrightarrow>
      boundary_set_from_string bound (p @ ''.'' @ c) = Inl Aver_failed) \<and>
   (CHR ''.'' \<notin> set c \<and> CHR '':'' \<notin> set l \<longrightarrow>
      boundary_set_from_string bound (f @ '':'' @ l @ ''.'' @ c)
        = Inr \<lparr>file' = Some f, line = atoi l, column = atoi c\<rparr>)"
proof (intro conjI impI)
  have "boundary_set_from_string bound (''myfile.y'' @ '':'' @ ''12'' @ ''.'' @ ''7'')
          = Inr \<lparr>file' = Some ''myfile.y'', line = atoi ''12'', column = atoi ''7''\<rparr>"
    by (rule parse_general) simp_all
  then show "boundary_set_from_string bound ''myfile.y:12.7''
     = Inr \<lparr>file' = Some ''myfile.y'', line = 12, column = 7\<rparr>"
    by (simp add: atoi_examples)
next
  assume "CHR ''.'' \<notin> set s"
  then show "boundary_set_from_string bound s = Inl Aver_failed"
    by (simp add: boundary_set_from_string_def strrchr_absent)
next
  assume "CHR ''.'' \<notin> set c \<and> CHR '':'' \<notin> set p"
  then have "CHR ''.'' \<notin> set c" and "CHR '':'' \<notin> set p" by simp_all
  then show "boundary_set_from_string bound (p @ ''.'' @ c) = Inl Aver_failed"
    by (rule parse_no_colon)
next
  assume "CHR ''.'' \<notin> set c \<and> CHR '':'' \<notin> set l"
  then have "CHR ''.'' \<notin> set c" and "CHR '':'' \<notin> set l" by simp_all
  then show "boundary_set_from_string bound (f @ '':'' @ l @ ''.'' @ c)
        = Inr \<lparr>file' = Some f, line = atoi l, column = atoi c\<rparr>"
    by (rule parse_general)
qed

theorem boundary_set_from_string_parses_witness:
  "CHR ''.'' \<notin> set ''myfile:12'' \<and>
   boundary_set_from_string \<lparr>file' = None, line = 0, column = 0\<rparr> ''myfile:12'' = Inl Aver_failed \<and>
   CHR ''.'' \<notin> set ''y:7'' \<and> CHR '':'' \<notin> set ''myfile'' \<and>
   boundary_set_from_string \<lparr>file' = None, line = 0, column = 0\<rparr> (''myfile'' @ ''.'' @ ''y:7'')
     = Inl Aver_failed \<and>
   CHR ''.'' \<notin> set ''4x'' \<and> CHR '':'' \<notin> set '' 3'' \<and>
   boundary_set_from_string \<lparr>file' = None, line = 0, column = 0\<rparr>
       (''a:b.c'' @ '':'' @ '' 3'' @ ''.'' @ ''4x'')
     = Inr \<lparr>file' = Some ''a:b.c'', line = 3, column = 4\<rparr>"
  using boundary_set_from_string_parses [where bound = "\<lparr>file' = None, line = 0, column = 0\<rparr>"
      and s = "''myfile:12''" and c = "''y:7''" and p = "''myfile''" and l = "''12''" and f = "''f''"]
    boundary_set_from_string_parses [where bound = "\<lparr>file' = None, line = 0, column = 0\<rparr>"
      and s = "''myfile:12''" and c = "''4x''" and p = "''myfile''" and l = "'' 3''" and f = "''a:b.c''"]
  by (simp add: atoi_def atoi_digits_def isspace_def isdigit_def digit_value_def)

text \<open>
  C2 fails on the code. The file \<open>f\<close> holds one line, the caret information is in its
  initial state and the location starts at line 3: the loop that advances to the line
  reads the end of the file again and again, and \<open>location_caret\<close> does not return.
\<close>

theorem location_caret_diverges:
  "location_caret [''f'' \<mapsto> [CHR ''a'', CHR 0x0A]] caret_info_init
     \<lparr>start = \<lparr>file' = Some ''f'', line = 3, column = 1\<rparr>,
      end' = \<lparr>file' = Some ''f'', line = 3, column = 2\<rparr>\<rparr> ''error'' [] = None"
proof -
  have "advance_to_line 3 1 \<lparr>contents = [CHR ''a'', CHR 0x0A], pos = 0\<rparr> = None"
    by (rule advance_diverges) simp
  then show ?thesis
    by (simp add: location_caret_def caret_info_init_def fopen_def fseek_def Let_def)
qed

end
